theory Spec2Isabelle
  imports Complex_Main "HOL-Library.Sublist"
begin

section \<open>Values and exceptions\<close>

text \<open>
  The program handles values decoded from JSON. Objects are association lists in key
  order; \<open>json.loads\<close> never yields a duplicate key, so \<open>map_of\<close> reads a key the way
  \<open>dict.get\<close> does. Text is a list of characters with code points below 256.
\<close>

datatype json =
  JNull
| JBool bool
| JInt int
| JFloat real
| JStr string
| JList "json list"
| JObj "(string \<times> json) list"

text \<open>The exceptions the code raises or lets through, one constructor per raise site or
  per exception class of a library call.\<close>

datatype error =
  HttpError_status int
| HttpError_network int
| HttpError_exhausted
| RequestException
| JSONDecodeError
| ValueError_missing_key string
| TypeError_results
| ValueError_sleep
| OverflowError_sleep
| OSError
| ValueError_range
| ValueError_int
| TypeError
| AttributeError
| RuntimeError_empty
| ValueError_root
| ServiceException string


text \<open>Python truthiness, as \<open>or\<close>, \<open>not\<close> and \<open>if\<close> read a value.\<close>

fun truthy :: "json \<Rightarrow> bool" where
  "truthy JNull = False"
| "truthy (JBool b) = b"
| "truthy (JInt n) = (n \<noteq> 0)"
| "truthy (JFloat r) = (r \<noteq> 0)"
| "truthy (JStr s) = (s \<noteq> [])"
| "truthy (JList xs) = (xs \<noteq> [])"
| "truthy (JObj kvs) = (kvs \<noteq> [])"

definition py_or :: "json \<Rightarrow> json \<Rightarrow> json" where
  "py_or a b = (if truthy a then a else b)"

text \<open>\<open>d.get(k)\<close> and \<open>d.get(k, default)\<close> on a dict.\<close>

definition dict_get :: "(string \<times> json) list \<Rightarrow> string \<Rightarrow> json" where
  "dict_get kvs k = (case map_of kvs k of None \<Rightarrow> JNull | Some v \<Rightarrow> v)"

definition dict_get_default :: "(string \<times> json) list \<Rightarrow> string \<Rightarrow> json \<Rightarrow> json" where
  "dict_get_default kvs k d = (case map_of kvs k of None \<Rightarrow> d | Some v \<Rightarrow> v)"

section \<open>Transport: \<open>HttpClient.get_json\<close>\<close>

text \<open>
  One HTTP exchange ends in a timeout, a connection error, another exception of the
  HTTP library, or a response with a status code and a body (\<open>None\<close> when
  \<open>resp.json()\<close> raises). The listing service is a function of the query parameters
  and of the attempt number: within a run every (page, attempt) is requested at most once,
  so this covers every behaviour of the service.
\<close>

datatype http_outcome =
  Timeout
| ConnectionError
| OtherFailure
| Response int "json option"

type_synonym server = "int \<Rightarrow> int \<Rightarrow> int \<Rightarrow> http_outcome"

record http_client =
  max_retries :: int
  backoff_seconds :: real

text \<open>
  The observable effects, in the order they happen: a request sent for a page on an
  attempt, and a sleep that was carried out.
\<close>

datatype event = Request int int | Sleep real

type_synonym net = "event list"

fun requests :: "net \<Rightarrow> (int \<times> int) list" where
  "requests [] = []"
| "requests (Request p a # es) = (p, a) # requests es"
| "requests (Sleep d # es) = requests es"

fun sleeps :: "net \<Rightarrow> real list" where
  "sleeps [] = []"
| "sleeps (Request p a # es) = sleeps es"
| "sleeps (Sleep d # es) = d # sleeps es"

text \<open>
  \<open>time.sleep\<close> raises \<open>ValueError\<close> on a negative delay and \<open>OverflowError\<close> on a
  delay whose nanoseconds do not fit a signed 64-bit integer. Delays are finite floats,
  read as reals: doubling a finite float is exact until it leaves that range.
\<close>

definition sleep_limit :: real where
  "sleep_limit = 2 ^ 63 / 10 ^ 9"


definition time_sleep :: "real \<Rightarrow> net \<Rightarrow> error + net" where
  "time_sleep d w =
     (if d < 0 then Inl ValueError_sleep
      else if sleep_limit \<le> d then Inl OverflowError_sleep
      else Inr (w @ [Sleep d]))"

definition retry_status :: "int \<Rightarrow> bool" where
  "retry_status s = (s \<in> {429, 500, 502, 503, 504})"

text \<open>\<open>resp.ok\<close>: \<open>raise_for_status\<close> raises for 400 to 599.\<close>

definition resp_ok :: "int \<Rightarrow> bool" where
  "resp_ok s = (\<not> (400 \<le> s \<and> s < 600))"

text \<open>The loop \<open>for attempt in range(1, self.max_retries + 1)\<close>, over the attempts left.\<close>

fun get_json_loop ::
  "server \<Rightarrow> int \<Rightarrow> int \<Rightarrow> int \<Rightarrow> int list \<Rightarrow> real \<Rightarrow> net \<Rightarrow> (error + json) \<times> net" where
  "get_json_loop srv M days page [] backoff w = (Inl HttpError_exhausted, w)"
| "get_json_loop srv M days page (attempt # rest) backoff w =
     (let w1 = w @ [Request page attempt] in
      case srv days page attempt of
        Response status body \<Rightarrow>
          if retry_status status \<and> attempt < M then
            (case time_sleep backoff w1 of
               Inl e \<Rightarrow> (Inl e, w1)
             | Inr w2 \<Rightarrow> get_json_loop srv M days page rest (backoff * 2) w2)
          else if \<not> resp_ok status then (Inl (HttpError_status status), w1)
          else (case body of None \<Rightarrow> (Inl JSONDecodeError, w1) | Some j \<Rightarrow> (Inr j, w1))
      | OtherFailure \<Rightarrow> (Inl RequestException, w1)
      | _ \<Rightarrow>
          if attempt < M then
            (case time_sleep backoff w1 of
               Inl e \<Rightarrow> (Inl e, w1)
             | Inr w2 \<Rightarrow> get_json_loop srv M days page rest (backoff * 2) w2)
          else (Inl (HttpError_network attempt), w1))"

definition get_json :: "http_client \<Rightarrow> server \<Rightarrow> int \<Rightarrow> int \<Rightarrow> net \<Rightarrow> (error + json) \<times> net" where
  "get_json c srv days page w =
     get_json_loop srv (max_retries c) days page [1..max_retries c] (backoff_seconds c) w"


section \<open>Library functions\<close>

text \<open>
  The library functions whose results the program only passes on are parameters of the
  model: \<open>json.loads\<close> (\<open>None\<close> when it raises), \<open>json.dumps\<close> with sorted keys,
  \<open>str\<close> on floats, lists and dicts, \<open>int\<close> on a string (\<open>None\<close> when it raises),
  the f-string of \<open>_build_prompt\<close> as a function of the profile, the preview, the batch
  index and the number of batches, \<open>str\<close> of a service response, and \<open>textwrap.dedent\<close>.
\<close>

datatype part = Part (part_text: "string option")
datatype content = Content (parts: "part list option")
datatype candidate = Candidate (content: "content option")
datatype response = ServiceResponse (candidates: "candidate list option")

record pylib =
  loads :: "string \<Rightarrow> json option"
  dumps_sorted :: "json \<Rightarrow> string"
  repr_other :: "json \<Rightarrow> string"
  int_of_str :: "string \<Rightarrow> int option"
  format_prompt :: "json \<Rightarrow> json \<Rightarrow> int \<Rightarrow> int \<Rightarrow> string"
  str_response :: "response \<Rightarrow> string"
  dedent :: "string \<Rightarrow> string"

text \<open>\<open>str\<close> on an integer: its decimal digits.\<close>

fun dec_nat :: "nat \<Rightarrow> string" where
  "dec_nat n = (if n < 10 then [''0123456789'' ! n] else dec_nat (n div 10) @ [''0123456789'' ! (n mod 10)])"

declare dec_nat.simps [simp del]

definition str_int :: "int \<Rightarrow> string" where
  "str_int n = (if n < 0 then CHR ''-'' # dec_nat (nat (- n)) else dec_nat (nat n))"

fun py_str :: "pylib \<Rightarrow> json \<Rightarrow> string" where
  "py_str L (JStr s) = s"
| "py_str L (JInt n) = str_int n"
| "py_str L (JBool b) = (if b then ''True'' else ''False'')"
| "py_str L JNull = ''None''"
| "py_str L v = repr_other L v"

text \<open>\<open>int(x)\<close>: a float is truncated towards zero.\<close>

fun py_int :: "pylib \<Rightarrow> json \<Rightarrow> error + int" where
  "py_int L (JInt n) = Inr n"
| "py_int L (JBool b) = Inr (if b then 1 else 0)"
| "py_int L (JFloat r) = Inr (if 0 \<le> r then \<lfloor>r\<rfloor> else \<lceil>r\<rceil>)"
| "py_int L (JStr s) = (case int_of_str L s of None \<Rightarrow> Inl ValueError_int | Some n \<Rightarrow> Inr n)"
| "py_int L v = Inl TypeError"

section \<open>Paginator: \<open>JobOffersFetcher\<close>\<close>

record fetcher =
  http :: http_client
  sleep_between_pages :: real

text \<open>
  \<open>_dedupe_key\<close> on a dict: \<open>str(item.get("_id") or item.get("linkOffer") or id(item))\<close>.
  \<open>id(item)\<close> is the identity of the object, a number no other object alive at the same
  time has; an item is therefore a pair of its identity and its value.
\<close>

definition dedupe_key :: "pylib \<Rightarrow> nat \<Rightarrow> (string \<times> json) list \<Rightarrow> string" where
  "dedupe_key L oid kvs =
     py_str L (py_or (dict_get kvs ''_id'') (py_or (dict_get kvs ''linkOffer'') (JInt (int oid))))"

text \<open>The key of an item that is a dict (on any other value \<open>item.get\<close> raises).\<close>

fun item_key :: "pylib \<Rightarrow> nat \<times> json \<Rightarrow> string" where
  "item_key L (oid, JObj kvs) = dedupe_key L oid kvs"
| "item_key L (oid, v) = []"

fun is_dict :: "json \<Rightarrow> bool" where
  "is_dict (JObj kvs) = True"
| "is_dict v = False"

text \<open>\<open>key in data\<close> for a string key.\<close>

fun py_in :: "string \<Rightarrow> json \<Rightarrow> error + bool" where
  "py_in k (JObj kvs) = Inr (k \<in> set (map fst kvs))"
| "py_in k (JList xs) = Inr (JStr k \<in> set xs)"
| "py_in k (JStr s) = Inr (sublist k s)"
| "py_in k v = Inl TypeError"

fun check_keys :: "json \<Rightarrow> string list \<Rightarrow> error + unit" where
  "check_keys data [] = Inr ()"
| "check_keys data (k # ks) =
     (case py_in k data of
        Inl e \<Rightarrow> Inl e
      | Inr b \<Rightarrow> if \<not> b then Inl (ValueError_missing_key k) else check_keys data ks)"

text \<open>The validation of \<open>fetch_page\<close>; \<open>data["results"]\<close> raises on a list or a string.\<close>

definition validate_page :: "json \<Rightarrow> error + (string \<times> json) list" where
  "validate_page data =
     (case check_keys data [''results'', ''total'', ''totalPages'', ''page''] of
        Inl e \<Rightarrow> Inl e
      | Inr u \<Rightarrow>
          (case data of
             JObj kvs \<Rightarrow>
               (case dict_get kvs ''results'' of
                  JList xs \<Rightarrow> Inr kvs
                | _ \<Rightarrow> Inl TypeError_results)
           | _ \<Rightarrow> Inl TypeError))"

definition fetch_page ::
  "fetcher \<Rightarrow> server \<Rightarrow> int \<Rightarrow> int \<Rightarrow> net \<Rightarrow> (error + (string \<times> json) list) \<times> net" where
  "fetch_page f srv days page w =
     (case get_json (http f) srv days page w of
        (Inl e, w') \<Rightarrow> (Inl e, w')
      | (Inr data, w') \<Rightarrow> (validate_page data, w'))"

text \<open>\<open>add_batch\<close>: the loop over the items of a page, on the set \<open>seen\<close> and the list
  \<open>consolidated\<close>.\<close>

fun add_batch ::
  "pylib \<Rightarrow> (nat \<times> json) list \<Rightarrow> string set \<times> (nat \<times> json) list
     \<Rightarrow> error + string set \<times> (nat \<times> json) list" where
  "add_batch L [] (seen, consolidated) = Inr (seen, consolidated)"
| "add_batch L ((oid, it) # items) (seen, consolidated) =
     (case it of
        JObj kvs \<Rightarrow>
          (let key = dedupe_key L oid kvs in
           if key \<in> seen then add_batch L items (seen, consolidated)
           else add_batch L items (insert key seen, consolidated @ [(oid, it)]))
      | _ \<Rightarrow> Inl AttributeError)"

text \<open>The items of a page with their identities: \<open>obj_id page i\<close> is the identity of the
  \<open>i\<close>-th element of the results of that page.\<close>

definition page_items :: "(int \<Rightarrow> nat \<Rightarrow> nat) \<Rightarrow> int \<Rightarrow> (string \<times> json) list \<Rightarrow> (nat \<times> json) list" where
  "page_items obj_id page kvs =
     (case dict_get kvs ''results'' of
        JList xs \<Rightarrow> map (\<lambda>i. (obj_id page i, xs ! i)) [0..<length xs]
      | _ \<Rightarrow> [])"

record meta =
  total_reported :: json
  pages_traversed :: int
  total_pages_api :: int
  items_consolidated :: nat
  days_param :: int

text \<open>The loop \<open>for p in range(2, total_pages + 1)\<close>, over the pages left.\<close>

fun pages_loop ::
  "pylib \<Rightarrow> fetcher \<Rightarrow> server \<Rightarrow> (int \<Rightarrow> nat \<Rightarrow> nat) \<Rightarrow> int \<Rightarrow> bool \<Rightarrow> int list
     \<Rightarrow> string set \<times> (nat \<times> json) list \<Rightarrow> net
     \<Rightarrow> (error + string set \<times> (nat \<times> json) list) \<times> net" where
  "pages_loop L f srv obj_id days respect_rate_limit [] acc w = (Inr acc, w)"
| "pages_loop L f srv obj_id days respect_rate_limit (p # ps) acc w =
     (case (if respect_rate_limit \<and> sleep_between_pages f > 0
            then time_sleep (sleep_between_pages f) w else Inr w) of
        Inl e \<Rightarrow> (Inl e, w)
      | Inr w1 \<Rightarrow>
          (case fetch_page f srv days p w1 of
             (Inl e, w2) \<Rightarrow> (Inl e, w2)
           | (Inr page_data, w2) \<Rightarrow>
               (case add_batch L (page_items obj_id p page_data) acc of
                  Inl e \<Rightarrow> (Inl e, w2)
                | Inr acc' \<Rightarrow> pages_loop L f srv obj_id days respect_rate_limit ps acc' w2)))"

definition get_all_offers ::
  "pylib \<Rightarrow> fetcher \<Rightarrow> server \<Rightarrow> (int \<Rightarrow> nat \<Rightarrow> nat) \<Rightarrow> int \<Rightarrow> int option \<Rightarrow> bool \<Rightarrow> net
     \<Rightarrow> (error + json list \<times> meta) \<times> net" where
  "get_all_offers L f srv obj_id days max_pages respect_rate_limit w =
     (case fetch_page f srv days 1 w of
        (Inl e, w1) \<Rightarrow> (Inl e, w1)
      | (Inr first, w1) \<Rightarrow>
          (case py_int L (dict_get_default first ''totalPages'' (JInt 1)) of
             Inl e \<Rightarrow> (Inl e, w1)
           | Inr pages_api \<Rightarrow>
               (let total_pages = (case max_pages of
                                     Some m \<Rightarrow> min pages_api m
                                   | None \<Rightarrow> pages_api) in
                case add_batch L (page_items obj_id 1 first) ({}, []) of
                  Inl e \<Rightarrow> (Inl e, w1)
                | Inr acc \<Rightarrow>
                    (case pages_loop L f srv obj_id days respect_rate_limit [2..total_pages] acc w1 of
                       (Inl e, w2) \<Rightarrow> (Inl e, w2)
                     | (Inr (seen, consolidated), w2) \<Rightarrow>
                         (Inr (map snd consolidated,
                               \<lparr>total_reported = dict_get first ''total'',
                                pages_traversed = total_pages,
                                total_pages_api = pages_api,
                                items_consolidated = length consolidated,
                                days_param = days\<rparr>), w2)))))"

text \<open>The pages requested, in order, each once however many attempts it took.\<close>

definition pages_fetched :: "net \<Rightarrow> int list" where
  "pages_fetched w = remdups_adj (map fst (requests w))"

text \<open>Keeping the first item of every key, the keys in \<open>seen\<close> apart: what both
  deduplication loops compute when they do not raise.\<close>

fun first_by :: "('a \<Rightarrow> 'k) \<Rightarrow> 'k set \<Rightarrow> 'a list \<Rightarrow> 'a list" where
  "first_by key seen [] = []"
| "first_by key seen (x # xs) =
     (if key x \<in> seen then first_by key seen xs
      else x # first_by key (insert (key x) seen) xs)"

section \<open>Batching: the split of \<open>filter_offers\<close>\<close>

text \<open>\<open>range(start, stop, step)\<close> as the list of its elements; a zero step raises
  \<open>ValueError\<close>.\<close>

definition py_range :: "int \<Rightarrow> int \<Rightarrow> int \<Rightarrow> error + int list" where
  "py_range start stop step =
     (if step = 0 then Inl ValueError_range
      else if 0 < step then
        Inr (map (\<lambda>k. start + int k * step) [0..<nat ((stop - start + step - 1) div step)])
      else
        Inr (map (\<lambda>k. start + int k * step) [0..<nat ((start - stop - step - 1) div (- step))]))"

text \<open>The slice \<open>xs[i:j]\<close>: a negative bound counts from the end, and both are clamped.\<close>

definition slice_bound :: "nat \<Rightarrow> int \<Rightarrow> nat" where
  "slice_bound n k = (if k < 0 then nat (max 0 (int n + k)) else min (nat k) n)"

definition py_slice :: "'a list \<Rightarrow> int \<Rightarrow> int \<Rightarrow> 'a list" where
  "py_slice xs i j = drop (slice_bound (length xs) i) (take (slice_bound (length xs) j) xs)"

text \<open>\<open>[offers[i: i + BATCH_SIZE] for i in range(0, len(offers), BATCH_SIZE)]\<close>.\<close>

definition split_batches :: "'a list \<Rightarrow> int \<Rightarrow> error + 'a list list" where
  "split_batches offers batch_size =
     (case py_range 0 (int (length offers)) batch_size of
        Inl e \<Rightarrow> Inl e
      | Inr starts \<Rightarrow> Inr (map (\<lambda>i. py_slice offers i (i + batch_size)) starts))"

section \<open>Sanitizer: \<open>_extract_text_from_response\<close> and \<open>_clean_response_text\<close>\<close>

text \<open>\<open>str.strip()\<close> removes the characters \<open>str.isspace\<close> accepts; below 256 these are
  the code points 9 to 13, 28 to 32, 133 and 160.\<close>

definition py_isspace :: "char \<Rightarrow> bool" where
  "py_isspace c = ((of_char c :: nat) \<in> {9, 10, 11, 12, 13, 28, 29, 30, 31, 32, 133, 160})"

definition py_strip :: "string \<Rightarrow> string" where
  "py_strip s = rev (dropWhile py_isspace (rev (dropWhile py_isspace s)))"

text \<open>The markers: three backquotes, three double quotes, three single quotes.\<close>

definition fence :: string where
  "fence = [CHR 0x60, CHR 0x60, CHR 0x60]"

definition triple_dq :: string where
  "triple_dq = [CHR 0x22, CHR 0x22, CHR 0x22]"

definition triple_sq :: string where
  "triple_sq = [CHR 0x27, CHR 0x27, CHR 0x27]"

definition clean_response_text :: "string \<Rightarrow> string" where
  "clean_response_text t =
     (let s = py_strip t;
          s = (if prefix (fence @ ''json'') s then py_strip (drop (length (fence @ ''json'')) s) else s);
          s = (if prefix fence s then py_strip (drop 3 s) else s);
          s = (if suffix fence s then py_strip (py_slice s 0 (- 3)) else s);
          s = (if (prefix triple_dq s \<and> suffix triple_dq s) \<or> (prefix triple_sq s \<and> suffix triple_sq s)
               then py_strip (py_slice s 3 (- 3)) else s)
      in s)"

text \<open>\<open>_extract_text_from_response\<close>: the texts of the parts of the first candidate,
  joined; \<open>None\<close> when a link of the chain is missing or empty.\<close>

definition extract_text_from_response :: "response \<Rightarrow> string option" where
  "extract_text_from_response r =
     (case candidates r of
        None \<Rightarrow> None
      | Some [] \<Rightarrow> None
      | Some (c # cs) \<Rightarrow>
          (case content c of
             None \<Rightarrow> None
           | Some co \<Rightarrow>
               (case parts co of
                  None \<Rightarrow> None
                | Some [] \<Rightarrow> None
                | Some ps \<Rightarrow>
                    (let texts = concat (map (\<lambda>p. case part_text p of
                                                     None \<Rightarrow> []
                                                   | Some t \<Rightarrow> if t = [] then [] else [t]) ps)
                     in if texts = [] then None else Some (concat texts)))))"

text \<open>The body of the \<open>try\<close> of \<open>_call_gemini_with_retries\<close> after the call has returned
  a response: extract the text, clean it, parse it, require a list at the root.\<close>

definition parse_response :: "pylib \<Rightarrow> response \<Rightarrow> error + json list" where
  "parse_response L r =
     (case extract_text_from_response r of
        None \<Rightarrow> Inl RuntimeError_empty
      | Some t \<Rightarrow>
          if t = [] then Inl RuntimeError_empty
          else (case loads L (clean_response_text t) of
                  None \<Rightarrow> Inl JSONDecodeError
                | Some (JList xs) \<Rightarrow> Inr xs
                | Some v \<Rightarrow> Inl ValueError_root))"

text \<open>A payload: a text that is not empty and neither begins nor ends with whitespace, a
  backquote or a quote.\<close>

definition is_edge :: "char \<Rightarrow> bool" where
  "is_edge c = (\<not> py_isspace c \<and> c \<noteq> CHR 0x60 \<and> c \<noteq> CHR 0x22 \<and> c \<noteq> CHR 0x27)"

definition payload :: "string \<Rightarrow> bool" where
  "payload b = (b \<noteq> [] \<and> is_edge (hd b) \<and> is_edge (last b))"

text \<open>A text made of one part, as the response of the service.\<close>

definition text_response :: "string \<Rightarrow> response" where
  "text_response t = ServiceResponse (Some [Candidate (Some (Content (Some [Part (Some t)])))])"

text \<open>A library for the examples: \<open>json.loads\<close> is given, the other functions return
  the empty text (\<open>dedent\<close> returns its argument).\<close>

definition example_lib :: "(string \<Rightarrow> json option) \<Rightarrow> pylib" where
  "example_lib ld =
     \<lparr>loads = ld, dumps_sorted = (\<lambda>v. []), repr_other = (\<lambda>v. []), int_of_str = (\<lambda>s. None),
      format_prompt = (\<lambda>profile preview i n. []), str_response = (\<lambda>r. []), dedent = (\<lambda>s. s)\<rparr>"

section \<open>Digest: \<open>EmailGenerator.generate_html\<close>\<close>

text \<open>\<open>html.escape\<close> with \<open>quote=True\<close>, character by character; on a value that is not a
  string it raises \<open>AttributeError\<close>.\<close>

definition escape_char :: "char \<Rightarrow> string" where
  "escape_char c =
     (if c = CHR ''&'' then ''&amp;''
      else if c = CHR ''<'' then ''&lt;''
      else if c = CHR ''>'' then ''&gt;''
      else if c = CHR 0x22 then ''&quot;''
      else if c = CHR 0x27 then ''&#x27;''
      else [c])"

fun html_escape :: "json \<Rightarrow> error + string" where
  "html_escape (JStr s) = Inr (concat (map escape_char s))"
| "html_escape v = Inl AttributeError"

text \<open>The placeholders: \<open>sin_titulo\<close> has the letter i with an acute accent, code point
  237, after \<open>Sin t\<close>.\<close>

definition sin_titulo :: string where
  "sin_titulo =
     ''Sin t'' @ [CHR 0xED] @ ''tulo''"

definition sin_empresa :: string where
  "sin_empresa = ''Sin empresa''"

text \<open>The literal of the header, before \<open>dedent\<close>.\<close>

definition header_text :: string where
  "header_text =
     ''            <!DOCTYPE html>'' @ [CHR 0x0A] @ ''            <html lang='' @ [CHR 0x22] @
     ''es'' @ [CHR 0x22] @ ''>'' @ [CHR 0x0A] @ ''            <head>'' @ [CHR 0x0A] @
     ''                <meta charset='' @ [CHR 0x22] @ ''UTF-8'' @ [CHR 0x22] @ ''>'' @
     [CHR 0x0A] @ ''                <meta name='' @ [CHR 0x22] @ ''viewport'' @ [CHR 0x22] @
     '' content='' @ [CHR 0x22] @ ''width=device-width, initial-scale=1.0'' @ [CHR 0x22] @
     ''>'' @ [CHR 0x0A] @ ''                <style>'' @ [CHR 0x0A] @
     ''                    body { font-family: Arial, sans-serif; }'' @ [CHR 0x0A] @
     ''                    .offer { margin-bottom: 20px; border-bottom: 1px solid #ccc; padding-bottom: 10px; }'' @
     [CHR 0x0A] @
     ''                    .title { font-size: 18px; font-weight: bold; color: #333; }'' @
     [CHR 0x0A] @
     ''                    .company, .link { color: #0073b1; text-decoration: none; }'' @
     [CHR 0x0A] @ ''                </style>'' @ [CHR 0x0A] @ ''            </head>'' @
     [CHR 0x0A] @ ''            <body>'' @ [CHR 0x0A] @ ''                <h2>'' @ [CHR 0xDA] @
     ''ltimas Ofertas de Trabajo Filtradas</h2>'' @ [CHR 0x0A] @ ''        ''"

text \<open>The f-string of one offer, before \<open>dedent\<close>.\<close>

definition offer_text :: "string \<Rightarrow> string \<Rightarrow> string \<Rightarrow> string \<Rightarrow> string" where
  "offer_text title employer reason link_offer =
     [CHR 0x0A] @ ''                    <div class='' @ [CHR 0x22] @ ''offer'' @ [CHR 0x22] @
     ''>'' @ [CHR 0x0A] @ ''                        <p class='' @ [CHR 0x22] @ ''title'' @
     [CHR 0x22] @ ''>'' @
     title @
     ''</p>'' @ [CHR 0x0A] @ ''                        <p class='' @ [CHR 0x22] @ ''company'' @
     [CHR 0x22] @ ''>'' @
     employer @
     ''</p>'' @ [CHR 0x0A] @ ''                        <p><strong>Raz'' @ [CHR 0xF3] @
     ''n:</strong> '' @
     reason @
     ''</p>'' @ [CHR 0x0A] @ ''                        <p><a class='' @ [CHR 0x22] @ ''link'' @
     [CHR 0x22] @ '' href='' @ [CHR 0x22] @
     link_offer @
     [CHR 0x22] @ ''>Ver oferta completa</a></p>'' @ [CHR 0x0A] @
     ''                    </div>'' @ [CHR 0x0A] @ ''                ''"

definition no_offers_text :: string where
  "no_offers_text =
     ''<p>No se encontraron ofertas que coincidan con el perfil.</p>'' @ [CHR 0x0A]"

text \<open>The body of the loop: the four fields with their defaults, escaped in the order of
  the source.\<close>

definition render_offer :: "pylib \<Rightarrow> json \<Rightarrow> error + string" where
  "render_offer L offer =
     (case offer of
        JObj kvs \<Rightarrow>
          (case html_escape (dict_get_default kvs ''title'' (JStr sin_titulo)) of
             Inl e \<Rightarrow> Inl e
           | Inr title \<Rightarrow>
          (case html_escape (dict_get_default kvs ''employer'' (JStr sin_empresa)) of
             Inl e \<Rightarrow> Inl e
           | Inr employer \<Rightarrow>
          (case html_escape (dict_get_default kvs ''linkOffer'' (JStr ''#'')) of
             Inl e \<Rightarrow> Inl e
           | Inr link_offer \<Rightarrow>
          (case html_escape (dict_get_default kvs ''reason'' (JStr [])) of
             Inl e \<Rightarrow> Inl e
           | Inr reason \<Rightarrow> Inr (dedent L (offer_text title employer reason link_offer))))))
      | _ \<Rightarrow> Inl AttributeError)"

fun render_offers :: "pylib \<Rightarrow> json list \<Rightarrow> string \<Rightarrow> error + string" where
  "render_offers L [] html_content = Inr html_content"
| "render_offers L (offer # offers) html_content =
     (case render_offer L offer of
        Inl e \<Rightarrow> Inl e
      | Inr block \<Rightarrow> render_offers L offers (html_content @ block))"

text \<open>\<open>generate_html\<close>: the text written to the output file; \<open>write_fails\<close> tells
  whether \<open>write_text\<close> raises.\<close>

definition generate_html :: "pylib \<Rightarrow> bool \<Rightarrow> json list \<Rightarrow> error + string" where
  "generate_html L write_fails offers =
     (case (if offers = [] then Inr (dedent L header_text @ no_offers_text)
            else render_offers L offers (dedent L header_text)) of
        Inl e \<Rightarrow> Inl e
      | Inr html_content \<Rightarrow>
          if write_fails then Inl OSError else Inr (html_content @ ''</body></html>''))"

text \<open>The fields of a record that are present are strings.\<close>

fun is_str :: "json \<Rightarrow> bool" where
  "is_str (JStr s) = True"
| "is_str v = False"

definition str_fields :: "json \<Rightarrow> bool" where
  "str_fields offer =
     (case offer of
        JObj kvs \<Rightarrow>
          list_all (\<lambda>k. case map_of kvs k of None \<Rightarrow> True | Some v \<Rightarrow> is_str v)
            [''title'', ''employer'', ''linkOffer'', ''reason'']
      | _ \<Rightarrow> False)"

(*DEFS-END*)

section \<open>Properties of the transport\<close>




lemma requests_append: "requests (u @ v) = requests u @ requests v"
  by (induction u rule: requests.induct) simp_all





section \<open>Properties of the split\<close>

lemma concat_chunks: "concat (map (\<lambda>k. take B (drop (k * B) xs)) [0..<m]) = take (m * B) xs"
proof (induction m)
  case 0
  show ?case by simp
next
  case (Suc m)
  have "take (Suc m * B) xs = take (m * B) xs @ take B (drop (m * B) xs)"
    by (simp add: take_add [symmetric] add.commute)
  with Suc show ?case by simp
qed

lemma py_slice_chunk:
  assumes "0 < B"
  shows "py_slice xs (int k * int B) (int k * int B + int B) = take B (drop (k * B) xs)"
proof -
  have 1: "\<not> int k * int B < 0" and 2: "\<not> int k * int B + int B < 0"
    by (simp_all add: not_less)
  have 3: "nat (int k * int B) = k * B" and 4: "nat (int k * int B + int B) = k * B + B"
    by (simp_all add: nat_add_distrib nat_mult_distrib)
  have "drop (min (k * B) (length xs)) (take (min (k * B + B) (length xs)) xs)
      = take B (drop (k * B) xs)"
    by (simp add: drop_take min_def)
  then show ?thesis
    by (simp add: py_slice_def slice_bound_def 1 2 3 4)
qed

lemma chunk_count:
  assumes "0 < (b::nat)" and "m = (n + b - 1) div b"
  shows "n \<le> m * b" and "0 < m \<Longrightarrow> (m - 1) * b < n"
proof -
  have eq: "m * b + (n + b - 1) mod b = n + b - 1"
    unfolding assms(2) by (rule div_mult_mod_eq)
  have lt: "(n + b - 1) mod b < b" using assms(1) by simp
  from eq lt show "n \<le> m * b" by arith
  assume "0 < m"
  then have "b \<le> m * b" using assms(1) by simp
  moreover have "(m - 1) * b = m * b - b" by (simp add: diff_mult_distrib)
  ultimately show "(m - 1) * b < n" using eq lt by arith
qed

lemma split_batches_pos:
  assumes "0 < B"
  shows "split_batches xs B =
    Inr (map (\<lambda>k. take (nat B) (drop (k * nat B) xs)) [0..<(length xs + nat B - 1) div nat B])"
proof -
  obtain b where b: "B = int b" and bpos: "0 < b" using assms by (metis zero_less_imp_eq_int)
  have cnt: "nat ((int (length xs) - 0 + B - 1) div B) = (length xs + b - 1) div b"
  proof -
    have "int (length xs) - 0 + B - 1 = int (length xs + b - 1)" using b bpos by simp
    then have "(int (length xs) - 0 + B - 1) div B = int ((length xs + b - 1) div b)"
      unfolding b by (simp only: zdiv_int)
    then show ?thesis by (simp only: nat_int)
  qed
  show ?thesis
    using assms cnt
    by (simp add: split_batches_def py_range_def b py_slice_chunk [OF bpos] o_def)
qed

lemma butlast_upt0: "butlast [0..<m] = [0..<m - 1]"
  by (cases m) simp_all

text \<open>
  C7, as amended. For every posting collection and every \<open>batch_size > 0\<close> the split
  yields batches whose concatenation is the input, in input order; every batch but the last
  has exactly \<open>batch_size\<close> postings, and no batch is empty or longer than \<open>batch_size\<close>.
  With \<open>batch_size = 0\<close> the split raises the \<open>ValueError\<close> of \<open>range\<close>; with
  \<open>batch_size < 0\<close> it raises nothing and yields no batch at all.
\<close>

theorem split_batches_spec:
  "(0 < B \<longrightarrow> (\<exists>bs. split_batches xs B = Inr bs \<and> concat bs = xs
        \<and> list_all (\<lambda>b. int (length b) = B) (butlast bs)
        \<and> list_all (\<lambda>b. b \<noteq> [] \<and> int (length b) \<le> B) bs))
   \<and> split_batches xs 0 = Inl ValueError_range
   \<and> (B < 0 \<longrightarrow> split_batches xs B = Inr [])"
proof (intro conjI impI)
  assume pos: "0 < B"
  define b where "b = nat B"
  define m where "m = (length xs + b - 1) div b"
  define bs where "bs = map (\<lambda>k. take b (drop (k * b) xs)) [0..<m]"
  have bpos: "0 < b" and B: "B = int b" using pos by (simp_all add: b_def)
  have run: "split_batches xs B = Inr bs"
    unfolding bs_def m_def b_def by (rule split_batches_pos [OF pos])
  have cover: "length xs \<le> m * b" by (rule chunk_count(1) [OF bpos m_def])
  have below: "(m - 1) * b < length xs" if "0 < m" using chunk_count(2) [OF bpos m_def that] .
  have whole: "concat bs = xs"
    unfolding bs_def concat_chunks using cover by simp
  have inner: "k * b + b \<le> length xs" if "k < m - 1" for k
  proof -
    from that have "0 < m" and "Suc k \<le> m - 1" by simp_all
    then have "Suc k * b \<le> (m - 1) * b" by (intro mult_le_mono1)
    with below [OF \<open>0 < m\<close>] show ?thesis by simp
  qed
  have len: "length (take b (drop (k * b) xs)) = b" if "k < m - 1" for k
    using inner [OF that] by simp
  have full: "list_all (\<lambda>c. int (length c) = B) (butlast bs)"
    unfolding bs_def B
    by (auto simp: list_all_iff map_butlast [symmetric] butlast_upt0 len
          simp del: length_take length_drop)
  have start: "k * b < length xs" if "k < m" for k
  proof -
    from that have "0 < m" and "k \<le> m - 1" by simp_all
    then have "k * b \<le> (m - 1) * b" by (intro mult_le_mono1)
    then show ?thesis by (rule le_less_trans [OF _ below [OF \<open>0 < m\<close>]])
  qed
  have nonempty: "take b (drop (k * b) xs) \<noteq> []" if "k < m" for k
    using start [OF that] bpos by simp
  have each: "list_all (\<lambda>c. c \<noteq> [] \<and> int (length c) \<le> B) bs"
    unfolding bs_def B using nonempty
    by (simp add: list_all_iff del: take_eq_Nil take_eq_Nil2)
  from run whole full each
  show "\<exists>bs. split_batches xs B = Inr bs \<and> concat bs = xs
        \<and> list_all (\<lambda>b. int (length b) = B) (butlast bs)
        \<and> list_all (\<lambda>b. b \<noteq> [] \<and> int (length b) \<le> B) bs"
    by blast
next
  show "split_batches xs 0 = Inl ValueError_range"
    by (simp add: split_batches_def py_range_def)
next
  assume neg: "B < 0"
  have "(0 - int (length xs) - B - 1) div (- B) \<le> 0"
  proof -
    have "0 - int (length xs) - B - 1 < - B" by simp
    moreover have "0 < - B" using neg by simp
    ultimately show ?thesis
      by (smt (verit) div_pos_neg_trivial pos_imp_zdiv_neg_iff zdiv_eq_0_iff)
  qed
  then show "split_batches xs B = Inr []"
    using neg by (simp add: split_batches_def py_range_def)
qed

theorem split_batches_spec_witness:
  "split_batches [JInt 1, JInt 2, JInt 3, JInt 4, JInt 5] 2
     = Inr [[JInt 1, JInt 2], [JInt 3, JInt 4], [JInt 5]]
   \<and> split_batches [JInt 1, JInt 2, JInt 3, JInt 4, JInt 5] 0 = Inl ValueError_range
   \<and> split_batches [JInt 1, JInt 2, JInt 3, JInt 4, JInt 5] (- 2) = Inr []"
  using split_batches_spec [of 2 "[JInt 1, JInt 2, JInt 3, JInt 4, JInt 5]"]
    split_batches_spec [of "- 2" "[JInt 1, JInt 2, JInt 3, JInt 4, JInt 5]"]
  by (simp add: split_batches_def py_range_def py_slice_def slice_bound_def upt_conv_Cons)

text \<open>With \<open>batch_size = -1\<close> three postings are split into no batch, and no error is
  signalled.\<close>

theorem split_batches_negative_counterexample:
  "split_batches [JInt 1, JInt 2, JInt 3] (- 1) = Inr []"
  by (simp add: split_batches_def py_range_def)

section \<open>Properties of the sanitizer\<close>

lemma dropWhile_all: "list_all P u \<Longrightarrow> dropWhile P (u @ y) = dropWhile P y"
  by (induction u) auto

lemma py_strip_around:
  assumes "list_all py_isspace u" and "list_all py_isspace v"
    and "x \<noteq> []" and "\<not> py_isspace (hd x)" and "\<not> py_isspace (last x)"
  shows "py_strip (u @ x @ v) = x"
proof -
  from assms(3) obtain a y where x: "x = a # y" by (cases x) auto
  from assms(3) obtain z c where x': "rev x = c # z" by (cases "rev x") auto
  then have "last x = c" by (metis list.sel(1) hd_rev)
  with assms(5) have c: "\<not> py_isspace c" by simp
  have "dropWhile py_isspace (u @ x @ v) = dropWhile py_isspace (x @ v)"
    using assms(1) by (rule dropWhile_all)
  also have "\<dots> = x @ v" using assms(4) x by simp
  finally have 1: "dropWhile py_isspace (u @ x @ v) = x @ v" .
  have "list_all py_isspace (rev v)" using assms(2) by (simp add: list_all_iff)
  then have "dropWhile py_isspace (rev v @ rev x) = dropWhile py_isspace (rev x)"
    by (rule dropWhile_all)
  also have "\<dots> = rev x" using c x' by simp
  finally show ?thesis by (simp add: py_strip_def 1)
qed

lemma dropWhile_all_nil: "list_all P u \<Longrightarrow> dropWhile P u = []"
  by (induction u) auto

lemma py_strip_spaces: "list_all py_isspace u \<Longrightarrow> py_strip u = []"
  by (simp add: py_strip_def dropWhile_all_nil)

lemma not_prefix_hd: "x \<noteq> [] \<Longrightarrow> p \<noteq> [] \<Longrightarrow> hd x \<noteq> hd p \<Longrightarrow> \<not> prefix p (x @ y)"
  by (cases x; cases p) auto

lemma not_suffix_last: "x \<noteq> [] \<Longrightarrow> p \<noteq> [] \<Longrightarrow> last x \<noteq> last p \<Longrightarrow> \<not> suffix p (y @ x)"
  by (metis last_appendR suffix_def)

lemma py_slice_drop_end: "length p = 3 \<Longrightarrow> py_slice (y @ p) 0 (- 3) = y"
  by (simp add: py_slice_def slice_bound_def)

lemma py_slice_inner: "length p = 3 \<Longrightarrow> length q = 3 \<Longrightarrow> py_slice (p @ y @ q) 3 (- 3) = y"
  by (simp add: py_slice_def slice_bound_def)

lemma clean_stepwise:
  assumes "py_strip t = s0"
    and "(if prefix (fence @ ''json'') s0 then py_strip (drop (length (fence @ ''json'')) s0) else s0) = s1"
    and "(if prefix fence s1 then py_strip (drop 3 s1) else s1) = s2"
    and "(if suffix fence s2 then py_strip (py_slice s2 0 (- 3)) else s2) = s3"
    and "(if (prefix triple_dq s3 \<and> suffix triple_dq s3) \<or> (prefix triple_sq s3 \<and> suffix triple_sq s3)
          then py_strip (py_slice s3 3 (- 3)) else s3) = s4"
  shows "clean_response_text t = s4"
  by (simp only: clean_response_text_def Let_def assms)

lemma fence_facts:
  "length fence = 3" "fence \<noteq> []" "hd fence = CHR 0x60" "last fence = CHR 0x60"
  "\<not> py_isspace (CHR 0x60)"
  by (simp_all add: fence_def py_isspace_def)

lemma triple_dq_facts:
  "length triple_dq = 3" "triple_dq \<noteq> []" "hd triple_dq = CHR 0x22" "last triple_dq = CHR 0x22"
  "\<not> py_isspace (CHR 0x22)"
  by (simp_all add: triple_dq_def py_isspace_def)

lemma triple_sq_facts:
  "length triple_sq = 3" "triple_sq \<noteq> []" "hd triple_sq = CHR 0x27" "last triple_sq = CHR 0x27"
  "\<not> py_isspace (CHR 0x27)"
  by (simp_all add: triple_sq_def py_isspace_def)

lemma payload_facts:
  assumes "payload b"
  shows "b \<noteq> []" "\<not> py_isspace (hd b)" "\<not> py_isspace (last b)"
    "hd b \<noteq> CHR 0x60" "hd b \<noteq> CHR 0x22" "hd b \<noteq> CHR 0x27"
    "last b \<noteq> CHR 0x60" "last b \<noteq> CHR 0x22" "last b \<noteq> CHR 0x27"
  using assms by (simp_all add: payload_def is_edge_def)

text \<open>The last two steps on a payload: nothing is left to strip.\<close>

lemma payload_unwrapped:
  assumes "payload b"
  shows "\<not> prefix fence (b @ y)" "\<not> suffix fence (y @ b)"
    "\<not> prefix triple_dq (b @ y)" "\<not> prefix triple_sq (b @ y)"
  using payload_facts [OF assms]
  by (simp_all add: not_prefix_hd not_suffix_last fence_facts triple_dq_facts triple_sq_facts)

lemma clean_payload_tail:
  assumes "payload b"
  shows "(if (prefix triple_dq b \<and> suffix triple_dq b) \<or> (prefix triple_sq b \<and> suffix triple_sq b)
          then py_strip (py_slice b 3 (- 3)) else b) = b"
  using payload_unwrapped(3,4) [OF assms, of "[]"] by simp

lemma clean_fenced_json:
  assumes b: "payload b" and sp: "list_all py_isspace u" "list_all py_isspace u'"
    "list_all py_isspace v" "list_all py_isspace v'"
  shows "clean_response_text (u @ fence @ ''json'' @ v @ b @ v' @ fence @ u') = b"
proof (rule clean_stepwise)
  let ?F = "fence @ ''json'' @ v @ b @ v' @ fence"
  have "py_strip (u @ ?F @ u') = ?F"
    by (rule py_strip_around [OF sp(1,2)]) (simp_all add: fence_facts)
  then show "py_strip (u @ fence @ ''json'' @ v @ b @ v' @ fence @ u') = ?F" by simp
  have "py_strip (v @ (b @ v' @ fence) @ []) = b @ v' @ fence"
    by (rule py_strip_around [OF sp(3)]) (simp_all add: fence_facts payload_facts [OF b])
  then show "(if prefix (fence @ ''json'') ?F
      then py_strip (drop (length (fence @ ''json'')) ?F) else ?F) = b @ v' @ fence"
    by (simp add: fence_facts)
  show "(if prefix fence (b @ v' @ fence) then py_strip (drop 3 (b @ v' @ fence))
      else b @ v' @ fence) = b @ v' @ fence"
    using payload_unwrapped(1) [OF b] by simp
  have "py_strip ([] @ b @ v') = b"
    by (rule py_strip_around [OF _ sp(4)]) (simp_all add: payload_facts [OF b])
  moreover have "py_slice ((b @ v') @ fence) 0 (- 3) = b @ v'"
    by (rule py_slice_drop_end) (simp add: fence_facts)
  ultimately show "(if suffix fence (b @ v' @ fence)
      then py_strip (py_slice (b @ v' @ fence) 0 (- 3)) else b @ v' @ fence) = b"
    by (simp add: suffix_def)
  show "(if (prefix triple_dq b \<and> suffix triple_dq b) \<or> (prefix triple_sq b \<and> suffix triple_sq b)
          then py_strip (py_slice b 3 (- 3)) else b) = b"
    by (rule clean_payload_tail [OF b])
qed

lemma clean_fenced_plain:
  assumes b: "payload b" and sp: "list_all py_isspace u" "list_all py_isspace u'"
    "list_all py_isspace v" "list_all py_isspace v'"
    and nj: "hd (v @ b) \<noteq> CHR ''j''"
  shows "clean_response_text (u @ fence @ v @ b @ v' @ fence @ u') = b"
proof (rule clean_stepwise)
  let ?F = "fence @ v @ b @ v' @ fence"
  have "py_strip (u @ ?F @ u') = ?F"
    by (rule py_strip_around [OF sp(1,2)]) (simp_all add: fence_facts)
  then show "py_strip (u @ fence @ v @ b @ v' @ fence @ u') = ?F" by simp
  have "v @ b \<noteq> []" using payload_facts(1) [OF b] by simp
  then have "\<not> prefix ''json'' ((v @ b) @ v' @ fence)"
    using nj by (intro not_prefix_hd) simp_all
  then show "(if prefix (fence @ ''json'') ?F
      then py_strip (drop (length (fence @ ''json'')) ?F) else ?F) = ?F"
    by simp
  have "py_strip (v @ (b @ v' @ fence) @ []) = b @ v' @ fence"
    by (rule py_strip_around [OF sp(3)]) (simp_all add: fence_facts payload_facts [OF b])
  then show "(if prefix fence ?F then py_strip (drop 3 ?F) else ?F) = b @ v' @ fence"
    by (simp add: fence_facts)
  have "py_strip ([] @ b @ v') = b"
    by (rule py_strip_around [OF _ sp(4)]) (simp_all add: payload_facts [OF b])
  moreover have "py_slice ((b @ v') @ fence) 0 (- 3) = b @ v'"
    by (rule py_slice_drop_end) (simp add: fence_facts)
  ultimately show "(if suffix fence (b @ v' @ fence)
      then py_strip (py_slice (b @ v' @ fence) 0 (- 3)) else b @ v' @ fence) = b"
    by (simp add: suffix_def)
  show "(if (prefix triple_dq b \<and> suffix triple_dq b) \<or> (prefix triple_sq b \<and> suffix triple_sq b)
          then py_strip (py_slice b 3 (- 3)) else b) = b"
    by (rule clean_payload_tail [OF b])
qed

lemma clean_bare:
  assumes b: "payload b" and sp: "list_all py_isspace u" "list_all py_isspace u'"
  shows "clean_response_text (u @ b @ u') = b"
proof (rule clean_stepwise)
  show "py_strip (u @ b @ u') = b"
    by (rule py_strip_around [OF sp]) (simp_all add: payload_facts [OF b])
  show "(if prefix (fence @ ''json'') b
      then py_strip (drop (length (fence @ ''json'')) b) else b) = b"
    using payload_facts(1,4) [OF b] by (cases b) (auto simp: fence_def)
  show "(if prefix fence b then py_strip (drop 3 b) else b) = b"
    using payload_unwrapped(1) [OF b, of "[]"] by simp
  show "(if suffix fence b then py_strip (py_slice b 0 (- 3)) else b) = b"
    using payload_unwrapped(2) [OF b, of "[]"] by simp
  show "(if (prefix triple_dq b \<and> suffix triple_dq b) \<or> (prefix triple_sq b \<and> suffix triple_sq b)
          then py_strip (py_slice b 3 (- 3)) else b) = b"
    by (rule clean_payload_tail [OF b])
qed

lemma clean_quoted:
  assumes b: "payload b" and sp: "list_all py_isspace u" "list_all py_isspace u'"
    "list_all py_isspace v" "list_all py_isspace v'"
    and q: "q = triple_dq \<or> q = triple_sq"
  shows "clean_response_text (u @ q @ v @ b @ v' @ q @ u') = b"
proof (rule clean_stepwise)
  let ?F = "q @ v @ b @ v' @ q"
  have qf: "length q = 3" "q \<noteq> []" "\<not> py_isspace (hd q)" "\<not> py_isspace (last q)"
    "hd q \<noteq> CHR 0x60" "last q \<noteq> CHR 0x60"
    using q by (auto simp: triple_dq_def triple_sq_def py_isspace_def)
  have "py_strip (u @ ?F @ u') = ?F"
    by (rule py_strip_around [OF sp(1,2)]) (simp_all add: qf)
  then show "py_strip (u @ q @ v @ b @ v' @ q @ u') = ?F" by simp
  have np: "\<not> prefix fence (q @ v @ b @ v' @ q)"
    by (rule not_prefix_hd) (simp_all add: qf fence_facts)
  then show "(if prefix (fence @ ''json'') ?F
      then py_strip (drop (length (fence @ ''json'')) ?F) else ?F) = ?F"
    by (auto dest: append_prefixD)
  show "(if prefix fence ?F then py_strip (drop 3 ?F) else ?F) = ?F"
    using np by simp
  have "\<not> suffix fence ((q @ v @ b @ v') @ q)"
    by (rule not_suffix_last) (simp_all add: qf fence_facts)
  then show "(if suffix fence ?F then py_strip (py_slice ?F 0 (- 3)) else ?F) = ?F"
    by simp
  have "py_strip (v @ b @ v') = b"
    by (rule py_strip_around [OF sp(3,4)]) (simp_all add: payload_facts [OF b])
  moreover have "py_slice (q @ (v @ b @ v') @ q) 3 (- 3) = v @ b @ v'"
    by (rule py_slice_inner) (simp_all add: qf)
  moreover have "prefix q ?F" "suffix q ((q @ v @ b @ v') @ q)"
    by (simp_all add: suffix_def)
  ultimately show "(if (prefix triple_dq ?F \<and> suffix triple_dq ?F)
            \<or> (prefix triple_sq ?F \<and> suffix triple_sq ?F)
          then py_strip (py_slice ?F 3 (- 3)) else ?F) = b"
    using q by auto
qed

lemma parse_response_root:
  assumes "extract_text_from_response r = Some t" and "t \<noteq> []"
    and "loads L (clean_response_text t) = Some v"
  shows "parse_response L r = (case v of JList xs \<Rightarrow> Inr xs | _ \<Rightarrow> Inl ValueError_root)"
  using assms by (cases v) (simp_all add: parse_response_def)

text \<open>
  C6, as amended. Let a payload be wrapped in whitespace. The sanitizer returns the payload
  itself when the text is the payload between a leading fence with the tag \<open>json\<close> and a
  trailing fence, between a leading fence without a tag and a trailing fence (the text after
  the fence not beginning with the letter j), between two triple double quotes or two triple
  single quotes, or alone. The cleaned text must then parse: when \<open>json.loads\<close> returns a
  list, that list is the result, and any other root raises the \<open>ValueError\<close> of the shape
  check, without being coerced. A language tag other than \<open>json\<close> is not stripped.
\<close>

theorem sanitizer_spec:
  assumes "payload b" and "list_all py_isspace u" and "list_all py_isspace u'"
    and "list_all py_isspace v" and "list_all py_isspace v'"
  shows "clean_response_text (u @ fence @ ''json'' @ v @ b @ v' @ fence @ u') = b
    \<and> (hd (v @ b) \<noteq> CHR ''j'' \<longrightarrow> clean_response_text (u @ fence @ v @ b @ v' @ fence @ u') = b)
    \<and> clean_response_text (u @ triple_dq @ v @ b @ v' @ triple_dq @ u') = b
    \<and> clean_response_text (u @ triple_sq @ v @ b @ v' @ triple_sq @ u') = b
    \<and> clean_response_text (u @ b @ u') = b
    \<and> (\<forall>L r t x. extract_text_from_response r = Some t \<and> t \<noteq> []
           \<and> loads L (clean_response_text t) = Some x \<longrightarrow>
         parse_response L r = (case x of JList xs \<Rightarrow> Inr xs | _ \<Rightarrow> Inl ValueError_root))"
proof (intro conjI impI allI)
  show "clean_response_text (u @ fence @ ''json'' @ v @ b @ v' @ fence @ u') = b"
    by (rule clean_fenced_json [OF assms])
  show "clean_response_text (u @ fence @ v @ b @ v' @ fence @ u') = b"
    if "hd (v @ b) \<noteq> CHR ''j''"
    by (rule clean_fenced_plain [OF assms that])
  show "clean_response_text (u @ triple_dq @ v @ b @ v' @ triple_dq @ u') = b"
    by (rule clean_quoted [OF assms]) simp
  show "clean_response_text (u @ triple_sq @ v @ b @ v' @ triple_sq @ u') = b"
    by (rule clean_quoted [OF assms]) simp
  show "clean_response_text (u @ b @ u') = b"
    by (rule clean_bare [OF assms(1,2,3)])
  show "parse_response L r = (case x of JList xs \<Rightarrow> Inr xs | _ \<Rightarrow> Inl ValueError_root)"
    if "extract_text_from_response r = Some t \<and> t \<noteq> [] \<and> loads L (clean_response_text t) = Some x"
    for L r t x
    using that by (intro parse_response_root [of r t L x]) simp_all
qed

theorem sanitizer_spec_witness:
  "payload ''[1]'' \<and> list_all py_isspace [] \<and> list_all py_isspace [CHR 0x0A]
   \<and> clean_response_text (fence @ ''json'' @ [CHR 0x0A] @ ''[1]'' @ [CHR 0x0A] @ fence @ [CHR 0x0A]) = ''[1]''
   \<and> clean_response_text (fence @ [CHR 0x0A] @ ''[1]'' @ [CHR 0x0A] @ fence @ [CHR 0x0A]) = ''[1]''
   \<and> clean_response_text (triple_dq @ [CHR 0x0A] @ ''[1]'' @ [CHR 0x0A] @ triple_dq @ [CHR 0x0A]) = ''[1]''
   \<and> parse_response (example_lib (\<lambda>s. if s = ''[1]'' then Some (JList [JInt 1]) else None))
        (text_response (fence @ ''json'' @ [CHR 0x0A] @ ''[1]'' @ [CHR 0x0A] @ fence @ [CHR 0x0A]))
      = Inr [JInt 1]
   \<and> parse_response (example_lib (\<lambda>s. if s = ''7'' then Some (JInt 7) else None))
        (text_response ''7'') = Inl ValueError_root"
proof -
  have h: "payload ''[1]''" "list_all py_isspace []" "list_all py_isspace [CHR 0x0A]"
    by (simp_all add: payload_def is_edge_def py_isspace_def)
  note s = sanitizer_spec [OF h(1) h(2) h(3) h(3) h(3)]
  have e: "extract_text_from_response (text_response t) = (if t = [] then None else Some t)" for t
    by (simp add: extract_text_from_response_def text_response_def)
  have c7: "clean_response_text ''7'' = ''7''"
    using sanitizer_spec [of "''7''" "[]" "[]" "[]" "[]"]
    by (simp add: payload_def is_edge_def py_isspace_def)
  from s have p1: "parse_response (example_lib (\<lambda>s. if s = ''[1]'' then Some (JList [JInt 1]) else None))
        (text_response (fence @ ''json'' @ [CHR 0x0A] @ ''[1]'' @ [CHR 0x0A] @ fence @ [CHR 0x0A]))
      = Inr [JInt 1]"
    by (simp add: parse_response_def e example_lib_def fence_def)
  have p2: "parse_response (example_lib (\<lambda>s. if s = ''7'' then Some (JInt 7) else None))
        (text_response ''7'') = Inl ValueError_root"
    by (simp add: parse_response_def e example_lib_def c7)
  from h s p1 p2 show ?thesis by simp
qed

text \<open>A fence with the tag \<open>python\<close>: the fences are stripped, the tag stays in the
  text.\<close>

theorem sanitizer_language_tag_counterexample:
  "clean_response_text (fence @ ''python'' @ [CHR 0x0A] @ ''[1]'' @ [CHR 0x0A] @ fence)
     = ''python'' @ [CHR 0x0A] @ ''[1]''"
  by code_simp

section \<open>Properties of the deduplication of the Paginator\<close>

lemma first_by_subseq: "subseq (first_by key seen xs) xs"
  by (induction xs arbitrary: seen) auto

lemma first_by_keys: "key ` set (first_by key seen xs) = key ` set xs - seen"
  by (induction xs arbitrary: seen) auto

lemma first_by_distinct: "distinct (map key (first_by key seen xs))"
proof (induction xs arbitrary: seen)
  case Nil
  show ?case by simp
next
  case (Cons x xs)
  have "key x \<notin> key ` set (first_by key (insert (key x) seen) xs)"
    unfolding first_by_keys by simp
  with Cons show ?case by simp
qed

lemma first_by_find:
  "find (\<lambda>y. key y = k) (first_by key seen xs) =
     (if k \<in> seen then None else find (\<lambda>y. key y = k) xs)"
  by (induction xs arbitrary: seen) auto

lemma add_batch_first_by:
  "list_all (\<lambda>x. is_dict (snd x)) xs \<Longrightarrow>
   add_batch L xs (seen, acc) =
     Inr (seen \<union> item_key L ` set xs, acc @ first_by (item_key L) seen xs)"
proof (induction xs arbitrary: seen acc)
  case Nil
  show ?case by simp
next
  case (Cons x xs)
  obtain oid it where x: "x = (oid, it)" by (cases x)
  with Cons.prems obtain kvs where it: "it = JObj kvs" by (cases it) auto
  from Cons.prems have rest: "list_all (\<lambda>x. is_dict (snd x)) xs" by simp
  show ?case
    unfolding x it using Cons.IH [OF rest]
    by (auto simp: Let_def)
qed

lemma digit_inj:
  assumes "i < 10" and "j < 10" and "''0123456789'' ! i = ''0123456789'' ! j"
  shows "i = j"
proof -
  have "distinct ''0123456789''" by simp
  moreover have "length ''0123456789'' = 10" by simp
  ultimately show ?thesis using assms by (metis nth_eq_iff_index_eq)
qed

lemma dec_nat_nonempty: "dec_nat n \<noteq> []"
  by (subst dec_nat.simps) simp

lemma dec_nat_inj: "dec_nat m = dec_nat n \<Longrightarrow> m = n"
proof (induction m arbitrary: n rule: dec_nat.induct)
  case (1 m)
  show ?case
  proof (cases "m < 10")
    case m: True
    show ?thesis
    proof (cases "n < 10")
      case True
      with m "1.prems" show ?thesis
        by (subst (asm) dec_nat.simps, subst (asm) (2) dec_nat.simps) (simp add: digit_inj)
    next
      case False
      with m "1.prems" dec_nat_nonempty [of "n div 10"] show ?thesis
        by (subst (asm) dec_nat.simps, subst (asm) (2) dec_nat.simps) simp
    qed
  next
    case m: False
    show ?thesis
    proof (cases "n < 10")
      case True
      with m "1.prems" dec_nat_nonempty [of "m div 10"] show ?thesis
        by (subst (asm) dec_nat.simps, subst (asm) (2) dec_nat.simps) simp
    next
      case False
      with m "1.prems" have "dec_nat (m div 10) = dec_nat (n div 10)"
        and d: "''0123456789'' ! (m mod 10) = ''0123456789'' ! (n mod 10)"
        by (subst (asm) dec_nat.simps, subst (asm) (2) dec_nat.simps, simp)+
      then have "m div 10 = n div 10" using "1.IH" m by blast
      moreover have "m mod 10 = n mod 10" using d by (intro digit_inj) simp_all
      ultimately show ?thesis by (metis div_mult_mod_eq)
    qed
  qed
qed

lemma dedupe_key_cases:
  "dedupe_key L oid kvs =
     (if truthy (dict_get kvs ''_id'') then py_str L (dict_get kvs ''_id'')
      else if truthy (dict_get kvs ''linkOffer'') then py_str L (dict_get kvs ''linkOffer'')
      else dec_nat oid)"
  by (simp add: dedupe_key_def py_or_def str_int_def)

text \<open>
  C3, as amended. The identity of a posting (a dict) accumulated by the Paginator is
  \<open>str\<close> of its \<open>_id\<close> field when that is truthy, else \<open>str\<close> of its \<open>linkOffer\<close>
  field when that is truthy, else \<open>str\<close> of the identity of the object. One accumulation
  keeps, in input order, the first posting of every identity and drops the later ones. Two
  postings that lack both fields share an identity only if they are the same object, so
  structurally identical copies are both kept.
\<close>

theorem paginator_identity:
  assumes "list_all (\<lambda>x. is_dict (snd x)) xs"
  shows "(\<exists>seen ys. add_batch L xs ({}, []) = Inr (seen, ys)
      \<and> subseq ys xs \<and> distinct (map (item_key L) ys)
      \<and> (\<forall>k. find (\<lambda>y. item_key L y = k) ys = find (\<lambda>y. item_key L y = k) xs))
    \<and> (\<forall>oid kvs. dedupe_key L oid kvs =
         (if truthy (dict_get kvs ''_id'') then py_str L (dict_get kvs ''_id'')
          else if truthy (dict_get kvs ''linkOffer'') then py_str L (dict_get kvs ''linkOffer'')
          else dec_nat oid))
    \<and> (\<forall>a b kvs. dedupe_key L a kvs = dedupe_key L b kvs \<longrightarrow>
          truthy (dict_get kvs ''_id'') \<or> truthy (dict_get kvs ''linkOffer'') \<or> a = b)"
proof -
  have "add_batch L xs ({}, []) = Inr ({} \<union> item_key L ` set xs, [] @ first_by (item_key L) {} xs)"
    by (rule add_batch_first_by [OF assms])
  then have 1: "\<exists>seen ys. add_batch L xs ({}, []) = Inr (seen, ys)
      \<and> subseq ys xs \<and> distinct (map (item_key L) ys)
      \<and> (\<forall>k. find (\<lambda>y. item_key L y = k) ys = find (\<lambda>y. item_key L y = k) xs)"
    by (simp add: first_by_subseq first_by_distinct first_by_find)
  have 3: "\<forall>a b kvs. dedupe_key L a kvs = dedupe_key L b kvs \<longrightarrow>
          truthy (dict_get kvs ''_id'') \<or> truthy (dict_get kvs ''linkOffer'') \<or> a = b"
    by (auto simp: dedupe_key_cases dest: dec_nat_inj)
  from 1 3 show ?thesis using dedupe_key_cases by blast
qed

lemma dec_nat_examples:
  "dec_nat (Suc 0) = ''1''" "dec_nat 2 = ''2''" "dec_nat 12 = ''12''"
  by code_simp+

text \<open>Two copies of one record without \<open>_id\<close> and \<open>linkOffer\<close>, the objects 1 and 2:
  both are kept.\<close>

theorem paginator_identical_copies_counterexample:
  "add_batch (example_lib (\<lambda>s. None))
     [(1, JObj [(''titleJob'', JStr ''QA'')]), (2, JObj [(''titleJob'', JStr ''QA'')])] ({}, [])
   = Inr ({''2'', ''1''},
       [(1, JObj [(''titleJob'', JStr ''QA'')]), (2, JObj [(''titleJob'', JStr ''QA'')])])"
  by (simp add: dedupe_key_cases dict_get_def dec_nat_examples Let_def)

theorem paginator_identity_witness:
  "list_all (\<lambda>x. is_dict (snd x))
     [(10::nat, JObj [(''_id'', JStr ''a''), (''titleJob'', JStr ''QA'')]),
      (11, JObj [(''_id'', JStr ''a''), (''titleJob'', JStr ''Dev'')]),
      (12, JObj [(''linkOffer'', JStr ''u'')]),
      (13, JObj [(''_id'', JStr ''''), (''linkOffer'', JStr ''u'')])]
   \<and> add_batch (example_lib (\<lambda>s. None))
     [(10, JObj [(''_id'', JStr ''a''), (''titleJob'', JStr ''QA'')]),
      (11, JObj [(''_id'', JStr ''a''), (''titleJob'', JStr ''Dev'')]),
      (12, JObj [(''linkOffer'', JStr ''u'')]),
      (13, JObj [(''_id'', JStr ''''), (''linkOffer'', JStr ''u'')])] ({}, [])
     = Inr ({''u'', ''a''},
         [(10, JObj [(''_id'', JStr ''a''), (''titleJob'', JStr ''QA'')]),
          (12, JObj [(''linkOffer'', JStr ''u'')])])
   \<and> dedupe_key (example_lib (\<lambda>s. None)) 12 [(''titleJob'', JStr ''QA'')] = ''12''"
proof -
  let ?xs = "[(10, JObj [(''_id'', JStr ''a''), (''titleJob'', JStr ''QA'')]),
      (11, JObj [(''_id'', JStr ''a''), (''titleJob'', JStr ''Dev'')]),
      (12, JObj [(''linkOffer'', JStr ''u'')]),
      (13::nat, JObj [(''_id'', JStr ''''), (''linkOffer'', JStr ''u'')])]"
  have h: "list_all (\<lambda>x. is_dict (snd x)) ?xs" by simp
  note t = paginator_identity [OF h, of "example_lib (\<lambda>s. None)"]
  have r: "add_batch (example_lib (\<lambda>s. None)) ?xs ({}, [])
     = Inr ({''u'', ''a''},
         [(10, JObj [(''_id'', JStr ''a''), (''titleJob'', JStr ''QA'')]),
          (12, JObj [(''linkOffer'', JStr ''u'')])])"
    by (simp add: dedupe_key_cases dict_get_def Let_def)
  from t have "dedupe_key (example_lib (\<lambda>s. None)) 12 [(''titleJob'', JStr ''QA'')] =
     (if truthy (dict_get [(''titleJob'', JStr ''QA'')] ''_id'')
      then py_str (example_lib (\<lambda>s. None)) (dict_get [(''titleJob'', JStr ''QA'')] ''_id'')
      else if truthy (dict_get [(''titleJob'', JStr ''QA'')] ''linkOffer'')
      then py_str (example_lib (\<lambda>s. None)) (dict_get [(''titleJob'', JStr ''QA'')] ''linkOffer'')
      else dec_nat 12)"
    by blast
  then have k: "dedupe_key (example_lib (\<lambda>s. None)) 12 [(''titleJob'', JStr ''QA'')] = ''12''"
    by (simp add: dict_get_def dec_nat_examples)
  from h r k show ?thesis by blast
qed

section \<open>Properties of the pagination\<close>

lemma get_json_loop_pages:
  "get_json_loop srv M days page atts b w = (r, w') \<Longrightarrow>
   \<exists>k. map fst (requests w') = map fst (requests w) @ replicate k page
     \<and> ((\<exists>v. r = Inr v) \<longrightarrow> 0 < k)"
proof (induction atts arbitrary: b w)
  case Nil
  then show ?case by (auto intro: exI [of _ 0])
next
  case (Cons a rest)
  from Cons.prems consider
    (stop) "w' = w @ [Request page a]"
    | (go) "get_json_loop srv M days page rest (b * 2) (w @ [Request page a, Sleep b]) = (r, w')"
    by (auto simp: Let_def time_sleep_def split: http_outcome.splits if_splits option.splits)
  then show ?case
  proof cases
    case stop
    then have "map fst (requests w') = map fst (requests w) @ replicate 1 page"
      by (simp add: requests_append)
    then show ?thesis by blast
  next
    case go
    from Cons.IH [OF go] obtain k where
      "map fst (requests w') = map fst (requests (w @ [Request page a, Sleep b])) @ replicate k page"
      by blast
    then have "map fst (requests w') = map fst (requests w) @ replicate (Suc k) page"
      by (simp add: requests_append)
    then show ?thesis by blast
  qed
qed

lemma fetch_page_pages:
  assumes "fetch_page f srv days page w = (r, w')"
  shows "\<exists>k. map fst (requests w') = map fst (requests w) @ replicate k page
     \<and> ((\<exists>v. r = Inr v) \<longrightarrow> 0 < k)"
proof -
  obtain r0 where g: "get_json (http f) srv days page w = (r0, w')"
    and ok: "(\<exists>v. r = Inr v) \<longrightarrow> (\<exists>v. r0 = Inr v)"
    using assms by (auto simp: fetch_page_def split: prod.splits sum.splits)
  from get_json_loop_pages [OF g [unfolded get_json_def]] ok show ?thesis by blast
qed

lemma pages_after_fetch:
  assumes "remdups_adj xs = [1..n]" and "1 \<le> n" and "0 < k"
  shows "remdups_adj (xs @ replicate k (n + 1)) = [1..n + 1]"
proof -
  from assms(1,2) have ne: "xs \<noteq> []" by auto
  have "last xs = last (remdups_adj xs)" by simp
  also have "\<dots> = n" using assms(1,2) by (simp add: upto_rec2)
  finally have "last xs \<noteq> hd (replicate k (n + 1))" using assms(3) by (cases k) simp_all
  then have "remdups_adj (xs @ replicate k (n + 1)) = remdups_adj xs @ remdups_adj (replicate k (n + 1))"
    by (intro remdups_adj_append') simp
  also have "\<dots> = [1..n] @ [n + 1]" using assms(1,3) by (simp add: remdups_adj_replicate)
  also have "\<dots> = [1..n + 1]" using assms(2) by (simp add: upto_rec2)
  finally show ?thesis .
qed

lemma pages_loop_pages:
  "pages_loop L f srv obj_id days rl [n + 1..T] acc w = (Inr acc', w') \<Longrightarrow>
   remdups_adj (map fst (requests w)) = [1..n] \<Longrightarrow> 1 \<le> n \<Longrightarrow>
   remdups_adj (map fst (requests w')) = [1..max n T]"
proof (induction "nat (T - n)" arbitrary: n acc w)
  case 0
  then have "[n + 1..T] = []" and "max n T = n" by simp_all
  with 0 show ?case by simp
next
  case (Suc m)
  then have le: "n + 1 \<le> T" by simp
  then have up: "[n + 1..T] = (n + 1) # [n + 1 + 1..T]" by (simp add: upto_rec1)
  from Suc.prems(1) [unfolded up] obtain w1 w2 page_data acc1 where
    w1: "w1 = w \<or> w1 = w @ [Sleep (sleep_between_pages f)]"
    and fp: "fetch_page f srv days (n + 1) w1 = (Inr page_data, w2)"
    and rest: "pages_loop L f srv obj_id days rl [n + 1 + 1..T] acc1 w2 = (Inr acc', w')"
    by (auto simp: time_sleep_def split: if_splits sum.splits prod.splits) blast+
  from w1 have same: "map fst (requests w1) = map fst (requests w)"
    by (auto simp: requests_append)
  from fetch_page_pages [OF fp] obtain k where
    k: "map fst (requests w2) = map fst (requests w) @ replicate k (n + 1)" "0 < k"
    unfolding same by blast
  have inv: "remdups_adj (map fst (requests w2)) = [1..n + 1]"
    unfolding k(1) by (rule pages_after_fetch [OF Suc.prems(2,3) k(2)])
  from Suc.hyps(2) have m: "m = nat (T - (n + 1))" by simp
  from Suc.hyps(1) [OF m rest inv] Suc.prems(3) le
  show ?case by (simp add: max_def)
qed

text \<open>
  C4, as amended. In every run of \<open>get_all_offers\<close> that completes, page 1 is fetched
  first, whatever \<open>max_pages\<close> is, and then the pages 2 to \<open>min(totalPages, max_pages)\<close>
  (to \<open>totalPages\<close> when \<open>max_pages\<close> is not given), in strictly increasing order: the
  pages fetched are exactly 1 to \<open>max(1, pages_traversed)\<close>, where the returned
  \<open>pages_traversed\<close> is that minimum.
\<close>

theorem get_all_offers_pages:
  assumes "get_all_offers L f srv obj_id days max_pages rl [] = (Inr (offers, m), w')"
  shows "pages_traversed m =
      (case max_pages of Some k \<Rightarrow> min (total_pages_api m) k | None \<Rightarrow> total_pages_api m)
    \<and> pages_fetched w' = [1..max 1 (pages_traversed m)]
    \<and> sorted_wrt (<) (pages_fetched w')"
proof -
  define T where "T = (case max_pages of Some k \<Rightarrow> min (total_pages_api m) k | None \<Rightarrow> total_pages_api m)"
  from assms obtain first w1 acc acc' where
    fp: "fetch_page f srv days 1 [] = (Inr first, w1)"
    and loop: "pages_loop L f srv obj_id days rl [2..T] acc w1 = (Inr acc', w')"
    and tr: "pages_traversed m = T"
    unfolding get_all_offers_def T_def
    by (auto simp: Let_def split: prod.splits sum.splits option.splits)
  from fetch_page_pages [OF fp] obtain k where
    "map fst (requests w1) = replicate k 1" and "0 < k" by auto
  then have inv: "remdups_adj (map fst (requests w1)) = [1..1]"
    by (simp add: remdups_adj_replicate)
  have "[2..T] = [1 + 1..T]" by simp
  with loop have "pages_loop L f srv obj_id days rl [1 + 1..T] acc w1 = (Inr acc', w')"
    by (simp only:)
  from pages_loop_pages [OF this inv] have pf: "pages_fetched w' = [1..max 1 T]"
    by (simp add: pages_fetched_def)
  have "sorted_wrt (<) [1..max 1 T]"
    by (simp add: strict_sorted_iff)
  with pf tr show ?thesis by (simp add: T_def)
qed

lemma run_two_of_five:
  "get_all_offers (example_lib (\<lambda>s. None))
      \<lparr>http = \<lparr>max_retries = 3, backoff_seconds = 1\<rparr>, sleep_between_pages = 3 / 10\<rparr>
      (\<lambda>d p a. Response 200 (Some (JObj [(''results'', JList [JObj [(''_id'', JStr ''a'')]]),
          (''total'', JInt 9), (''totalPages'', JInt 5), (''page'', JInt p)])))
      (\<lambda>p i. 0) 7 (Some 2) True []
    = (Inr ([JObj [(''_id'', JStr ''a'')]],
          \<lparr>total_reported = JInt 9, pages_traversed = 2, total_pages_api = 5,
           items_consolidated = 1, days_param = 7\<rparr>),
       [Request 1 1, Sleep (3 / 10), Request 2 1])"
  by (simp add: get_all_offers_def fetch_page_def get_json_def validate_page_def dict_get_def
      dict_get_default_def page_items_def upto_rec1 Let_def retry_status_def resp_ok_def
      time_sleep_def sleep_limit_def dedupe_key_def py_or_def)

theorem get_all_offers_pages_witness:
  "get_all_offers (example_lib (\<lambda>s. None))
      \<lparr>http = \<lparr>max_retries = 3, backoff_seconds = 1\<rparr>, sleep_between_pages = 3 / 10\<rparr>
      (\<lambda>d p a. Response 200 (Some (JObj [(''results'', JList [JObj [(''_id'', JStr ''a'')]]),
          (''total'', JInt 9), (''totalPages'', JInt 5), (''page'', JInt p)])))
      (\<lambda>p i. 0) 7 (Some 2) True []
    = (Inr ([JObj [(''_id'', JStr ''a'')]],
          \<lparr>total_reported = JInt 9, pages_traversed = 2, total_pages_api = 5,
           items_consolidated = 1, days_param = 7\<rparr>),
       [Request 1 1, Sleep (3 / 10), Request 2 1])
   \<and> pages_fetched [Request 1 1, Sleep (3 / 10), Request 2 1] = [1, 2]"
  using get_all_offers_pages [OF run_two_of_five] run_two_of_five
  by (simp add: upto_rec1)

text \<open>With \<open>totalPages = 5\<close> and \<open>max_pages = 0\<close> page 1 is fetched and
  \<open>pages_traversed\<close> is 0.\<close>

theorem get_all_offers_zero_max_pages_counterexample:
  "get_all_offers (example_lib (\<lambda>s. None))
      \<lparr>http = \<lparr>max_retries = 3, backoff_seconds = 1\<rparr>, sleep_between_pages = 3 / 10\<rparr>
      (\<lambda>d p a. Response 200 (Some (JObj [(''results'', JList [JObj [(''_id'', JStr ''a'')]]),
          (''total'', JInt 9), (''totalPages'', JInt 5), (''page'', JInt p)])))
      (\<lambda>p i. 0) 7 (Some 0) True []
    = (Inr ([JObj [(''_id'', JStr ''a'')]],
          \<lparr>total_reported = JInt 9, pages_traversed = 0, total_pages_api = 5,
           items_consolidated = 1, days_param = 7\<rparr>),
       [Request 1 1])"
  by (simp add: get_all_offers_def fetch_page_def get_json_def validate_page_def dict_get_def
      dict_get_default_def page_items_def upto_rec1 Let_def retry_status_def resp_ok_def
      time_sleep_def sleep_limit_def dedupe_key_def py_or_def)

section \<open>Properties of the digest\<close>

lemma field_escape:
  assumes "case map_of kvs k of None \<Rightarrow> True | Some v \<Rightarrow> is_str v"
  shows "\<exists>x. html_escape (dict_get_default kvs k (JStr d)) = Inr x
    \<and> (map_of kvs k = None \<longrightarrow> x = concat (map escape_char d))
    \<and> (\<forall>s. map_of kvs k = Some (JStr s) \<longrightarrow> x = concat (map escape_char s))"
proof (cases "map_of kvs k")
  case None
  then show ?thesis by (simp add: dict_get_default_def)
next
  case (Some v)
  with assms obtain s where "v = JStr s" by (cases v) auto
  with Some show ?thesis by (simp add: dict_get_default_def)
qed

lemma placeholders_plain:
  "concat (map escape_char sin_titulo) = sin_titulo"
  "concat (map escape_char sin_empresa) = sin_empresa"
  "concat (map escape_char ''#'') = ''#''"
  by (simp_all add: sin_titulo_def sin_empresa_def escape_char_def)

lemma render_offer_str_fields:
  assumes "str_fields (JObj kvs)"
  shows "\<exists>title employer reason link.
      render_offer L (JObj kvs) = Inr (dedent L (offer_text title employer reason link))
    \<and> (map_of kvs ''title'' = None \<longrightarrow> title = sin_titulo)
    \<and> (map_of kvs ''employer'' = None \<longrightarrow> employer = sin_empresa)
    \<and> (map_of kvs ''linkOffer'' = None \<longrightarrow> link = ''#'')
    \<and> (map_of kvs ''reason'' = None \<longrightarrow> reason = [])
    \<and> (\<forall>s. map_of kvs ''title'' = Some (JStr s) \<longrightarrow> title = concat (map escape_char s))
    \<and> (\<forall>s. map_of kvs ''employer'' = Some (JStr s) \<longrightarrow> employer = concat (map escape_char s))
    \<and> (\<forall>s. map_of kvs ''linkOffer'' = Some (JStr s) \<longrightarrow> link = concat (map escape_char s))
    \<and> (\<forall>s. map_of kvs ''reason'' = Some (JStr s) \<longrightarrow> reason = concat (map escape_char s))"
proof -
  from assms have f:
    "case map_of kvs ''title'' of None \<Rightarrow> True | Some v \<Rightarrow> is_str v"
    "case map_of kvs ''employer'' of None \<Rightarrow> True | Some v \<Rightarrow> is_str v"
    "case map_of kvs ''linkOffer'' of None \<Rightarrow> True | Some v \<Rightarrow> is_str v"
    "case map_of kvs ''reason'' of None \<Rightarrow> True | Some v \<Rightarrow> is_str v"
    by (simp_all add: str_fields_def)
  from field_escape [OF f(1), of sin_titulo] obtain t where
    t: "html_escape (dict_get_default kvs ''title'' (JStr sin_titulo)) = Inr t"
      "map_of kvs ''title'' = None \<longrightarrow> t = sin_titulo"
      "\<forall>s. map_of kvs ''title'' = Some (JStr s) \<longrightarrow> t = concat (map escape_char s)"
    unfolding placeholders_plain by auto
  from field_escape [OF f(2), of sin_empresa] obtain e where
    e: "html_escape (dict_get_default kvs ''employer'' (JStr sin_empresa)) = Inr e"
      "map_of kvs ''employer'' = None \<longrightarrow> e = sin_empresa"
      "\<forall>s. map_of kvs ''employer'' = Some (JStr s) \<longrightarrow> e = concat (map escape_char s)"
    unfolding placeholders_plain by auto
  from field_escape [OF f(3), of "''#''"] obtain l where
    l: "html_escape (dict_get_default kvs ''linkOffer'' (JStr ''#'')) = Inr l"
      "map_of kvs ''linkOffer'' = None \<longrightarrow> l = ''#''"
      "\<forall>s. map_of kvs ''linkOffer'' = Some (JStr s) \<longrightarrow> l = concat (map escape_char s)"
    unfolding placeholders_plain by auto
  from field_escape [OF f(4), of "[]"] obtain r where
    r: "html_escape (dict_get_default kvs ''reason'' (JStr [])) = Inr r"
      "map_of kvs ''reason'' = None \<longrightarrow> r = []"
      "\<forall>s. map_of kvs ''reason'' = Some (JStr s) \<longrightarrow> r = concat (map escape_char s)"
    by auto
  have ro: "render_offer L (JObj kvs) = Inr (dedent L (offer_text t e r l))"
    by (simp add: render_offer_def t(1) e(1) l(1) r(1))
  show ?thesis
    by (rule exI [of _ t], rule exI [of _ e], rule exI [of _ r], rule exI [of _ l])
      (intro conjI ro t(2,3) e(2,3) l(2,3) r(2,3))
qed

lemma render_offers_str_fields:
  "list_all str_fields offers \<Longrightarrow>
   render_offers L offers acc = Inr (acc @ concat (map (\<lambda>x. projr (render_offer L x)) offers))"
proof (induction offers arbitrary: acc)
  case Nil
  show ?case by simp
next
  case (Cons x offers)
  from Cons.prems have "str_fields x" by simp
  then obtain kvs where "x = JObj kvs" by (cases x) (simp_all add: str_fields_def)
  with \<open>str_fields x\<close> render_offer_str_fields [of kvs L]
  obtain block where b: "render_offer L x = Inr block" by auto
  from Cons.prems have "list_all str_fields offers" by simp
  from Cons.IH [OF this] b show ?case by simp
qed

text \<open>
  C9, as amended. When every record given to the digest renderer is a dict whose
  \<open>title\<close>, \<open>employer\<close>, \<open>linkOffer\<close> and \<open>reason\<close> fields, where present, are
  strings, and the output file can be written, rendering does not fail: the document is the
  header, the block of every record in order, and the closing tags. In the block of a record
  a missing \<open>title\<close>, \<open>employer\<close>, \<open>linkOffer\<close> or \<open>reason\<close> is rendered as the
  placeholder \<open>sin_titulo\<close>, \<open>sin_empresa\<close>, \<open>#\<close> or the empty text, and a field that is
  present as its escaped text.
\<close>

theorem generate_html_placeholders:
  assumes "list_all str_fields offers" and "JObj kvs \<in> set offers"
  shows "generate_html L False offers =
      Inr (dedent L header_text @ concat (map (\<lambda>x. projr (render_offer L x)) offers)
           @ ''</body></html>'')
    \<and> (\<exists>title employer reason link.
      render_offer L (JObj kvs) = Inr (dedent L (offer_text title employer reason link))
      \<and> (map_of kvs ''title'' = None \<longrightarrow> title = sin_titulo)
      \<and> (map_of kvs ''employer'' = None \<longrightarrow> employer = sin_empresa)
      \<and> (map_of kvs ''linkOffer'' = None \<longrightarrow> link = ''#'')
      \<and> (map_of kvs ''reason'' = None \<longrightarrow> reason = [])
      \<and> (\<forall>s. map_of kvs ''title'' = Some (JStr s) \<longrightarrow> title = concat (map escape_char s))
      \<and> (\<forall>s. map_of kvs ''employer'' = Some (JStr s) \<longrightarrow> employer = concat (map escape_char s))
      \<and> (\<forall>s. map_of kvs ''linkOffer'' = Some (JStr s) \<longrightarrow> link = concat (map escape_char s))
      \<and> (\<forall>s. map_of kvs ''reason'' = Some (JStr s) \<longrightarrow> reason = concat (map escape_char s)))"
proof (rule conjI)
  from assms(2) have ne: "offers \<noteq> []" by auto
  show "generate_html L False offers =
      Inr (dedent L header_text @ concat (map (\<lambda>x. projr (render_offer L x)) offers)
           @ ''</body></html>'')"
    using ne by (simp add: generate_html_def render_offers_str_fields [OF assms(1)])
  from assms have "str_fields (JObj kvs)" by (simp add: list_all_iff)
  then show "\<exists>title employer reason link.
      render_offer L (JObj kvs) = Inr (dedent L (offer_text title employer reason link))
      \<and> (map_of kvs ''title'' = None \<longrightarrow> title = sin_titulo)
      \<and> (map_of kvs ''employer'' = None \<longrightarrow> employer = sin_empresa)
      \<and> (map_of kvs ''linkOffer'' = None \<longrightarrow> link = ''#'')
      \<and> (map_of kvs ''reason'' = None \<longrightarrow> reason = [])
      \<and> (\<forall>s. map_of kvs ''title'' = Some (JStr s) \<longrightarrow> title = concat (map escape_char s))
      \<and> (\<forall>s. map_of kvs ''employer'' = Some (JStr s) \<longrightarrow> employer = concat (map escape_char s))
      \<and> (\<forall>s. map_of kvs ''linkOffer'' = Some (JStr s) \<longrightarrow> link = concat (map escape_char s))
      \<and> (\<forall>s. map_of kvs ''reason'' = Some (JStr s) \<longrightarrow> reason = concat (map escape_char s))"
    by (rule render_offer_str_fields)
qed

theorem generate_html_placeholders_witness:
  "list_all str_fields [JObj [(''employer'', JStr ''A&B'')]]
   \<and> JObj [(''employer'', JStr ''A&B'')] \<in> set [JObj [(''employer'', JStr ''A&B'')]]
   \<and> render_offer (example_lib (\<lambda>s. None)) (JObj [(''employer'', JStr ''A&B'')])
       = Inr (offer_text sin_titulo ''A&amp;B'' [] ''#'')
   \<and> generate_html (example_lib (\<lambda>s. None)) False [JObj [(''employer'', JStr ''A&B'')]]
       = Inr (header_text @ offer_text sin_titulo ''A&amp;B'' [] ''#'' @ ''</body></html>'')"
proof -
  have h: "list_all str_fields [JObj [(''employer'', JStr ''A&B'')]]"
    "JObj [(''employer'', JStr ''A&B'')] \<in> set [JObj [(''employer'', JStr ''A&B'')]]"
    by (simp_all add: str_fields_def)
  note t = generate_html_placeholders [OF h, of "example_lib (\<lambda>s. None)"]
  from t obtain title employer reason link where
    r: "render_offer (example_lib (\<lambda>s. None)) (JObj [(''employer'', JStr ''A&B'')])
        = Inr (dedent (example_lib (\<lambda>s. None)) (offer_text title employer reason link))"
    and v: "title = sin_titulo" "employer = concat (map escape_char ''A&B'')" "link = ''#''"
      "reason = []"
    by auto
  from r v have r': "render_offer (example_lib (\<lambda>s. None)) (JObj [(''employer'', JStr ''A&B'')])
       = Inr (offer_text sin_titulo ''A&amp;B'' [] ''#'')"
    by (simp add: example_lib_def escape_char_def)
  from t r' have g: "generate_html (example_lib (\<lambda>s. None)) False [JObj [(''employer'', JStr ''A&B'')]]
       = Inr (header_text @ offer_text sin_titulo ''A&amp;B'' [] ''#'' @ ''</body></html>'')"
    by (simp add: example_lib_def)
  from h r' g show ?thesis by (intro conjI)
qed

text \<open>A record without \<open>title\<close>, \<open>employer\<close> and \<open>linkOffer\<close> whose \<open>reason\<close> is
  \<open>null\<close>: \<open>html.escape\<close> raises \<open>AttributeError\<close>.\<close>

theorem generate_html_null_reason_counterexample:
  "generate_html (example_lib (\<lambda>s. None)) False
     [JObj [(''id'', JStr ''1''), (''reason'', JNull)]] = Inl AttributeError"
  by (simp add: generate_html_def render_offer_def dict_get_default_def sin_titulo_def
      sin_empresa_def)

(*PROPS-END*)

end
